theory Spec2Isabelle
  imports Main
begin

section \<open>The cart cache of the online boutique (cartservice/cache.go)\<close>

text \<open>
  The component keeps, per key, a list of encoded cart items in a remote Redis store.
  The Go methods \<^verbatim>\<open>Validate\<close>, \<^verbatim>\<open>Init\<close>, \<^verbatim>\<open>Add\<close>, \<^verbatim>\<open>Get\<close> and \<^verbatim>\<open>Remove\<close> are
  embedded as functions that pass the state of the store explicitly. A Go result
  \<^verbatim>\<open>(v, err)\<close> is a pair whose error component is \<open>None\<close> for \<^verbatim>\<open>nil\<close>.
  \<^verbatim>\<open>Add\<close>, \<^verbatim>\<open>Get\<close> and \<^verbatim>\<open>Remove\<close> are modelled for a component whose client handle
  has been set by \<^verbatim>\<open>Init\<close>.
\<close>

subsection \<open>Values\<close>

type_synonym key = string
type_synonym bytes = string
type_synonym duration = int

text \<open>
  Go \<^verbatim>\<open>error\<close> values. \<open>redis_Nil\<close> is the client's sentinel \<^verbatim>\<open>redis.Nil\<close>,
  \<open>errNotFound\<close> the value \<^verbatim>\<open>errNotFound{}\<close> of line 27, \<open>Errorf\<close> an error built by
  \<^verbatim>\<open>fmt.Errorf\<close>; the other constructors stand for the errors of the store's transport,
  of \<^verbatim>\<open>encoding/json\<close> and of \<^verbatim>\<open>time.ParseDuration\<close>.
\<close>

datatype error =
    redis_Nil
  | errNotFound
  | Errorf string
  | TransportError string
  | JSONError string
  | DurationError string

text \<open>
  Modelled from the spec: the declaration of \<^verbatim>\<open>CartItem\<close> is in a file of the package
  that is not part of the sources at hand. Section 3 of the specification gives it a
  product identifier (a string) and a quantity (an integer).
\<close>

record CartItem =
  ProductID :: string
  Quantity :: int

definition zero_CartItem :: CartItem where
  "zero_CartItem = \<lparr>ProductID = [], Quantity = 0\<rparr>"

record config =
  Host :: string
  TTL :: string

text \<open>
  The receiver: its configuration (\<^verbatim>\<open>weaver.WithConfig[config]\<close>), the client handle
  (\<open>None\<close> for a nil pointer, otherwise the address the client was created for) and
  the parsed time to live.
\<close>

record cartCacheImpl =
  Config :: config
  redisCli :: "string option"
  ttl :: duration

subsection \<open>The remote store\<close>

text \<open>
  Modelled from the spec: the store (the go-redis client and the Redis server behind
  it) is an external collaborator, named by section 6 of the specification through its
  interface: push to a list, range-read of a list, delete, set-expiry and a liveness
  check, each of which may fail. The commands keep the names the source calls them by
  and behave as those of the client that \<^verbatim>\<open>go.mod\<close> pins (go-redis v9.0.2) do against
  a Redis server: \<^verbatim>\<open>LPush\<close> pushes at the head of the list; \<^verbatim>\<open>LRange\<close> answers a key
  that does not exist with an empty list and no error (the specification speaks of a
  "key absent" signal here, which this client does not give for a range-read);
  \<^verbatim>\<open>Expire\<close> sends the duration in whole seconds and a time to live that is not
  positive deletes the key.

  The state holds the lists, the time to live set on each key in seconds, the commands
  issued so far, and a script \<open>faults\<close> that decides the outcome of every command by its
  position in the sequence of commands: \<open>faults s n = Some e\<close> makes the \<open>n\<close>-th command
  fail with \<open>e\<close>, leaving lists and expiries as they were. The model has no clock: the
  time to live of a key is what the last set-expiry made it.
\<close>

datatype cmd =
    CmdPing
  | CmdLPush key bytes
  | CmdExpire key duration
  | CmdLRange key int int
  | CmdDel key

record redis =
  kv :: "key \<rightharpoonup> bytes list"
  ttls :: "key \<rightharpoonup> int"
  trace :: "cmd list"
  faults :: "nat \<Rightarrow> error option"

definition outcome :: "redis \<Rightarrow> error option" where
  "outcome s = faults s (length (trace s))"

definition issue :: "cmd \<Rightarrow> redis \<Rightarrow> redis" where
  "issue c s = s\<lparr>trace := trace s @ [c]\<rparr>"

text \<open>The elements stored under a key, as a direct inspection of the store sees them.\<close>

definition elems :: "redis \<Rightarrow> key \<Rightarrow> bytes list" where
  "elems s k = (case kv s k of None \<Rightarrow> [] | Some xs \<Rightarrow> xs)"

definition Ping :: "redis \<Rightarrow> redis \<times> error option" where
  "Ping s = (issue CmdPing s, outcome s)"

definition LPush :: "redis \<Rightarrow> key \<Rightarrow> bytes \<Rightarrow> redis \<times> error option" where
  "LPush s k v =
     (case outcome s of
        Some e \<Rightarrow> (issue (CmdLPush k v) s, Some e)
      | None \<Rightarrow> (issue (CmdLPush k v) (s\<lparr>kv := (kv s)(k \<mapsto> v # elems s k)\<rparr>), None))"

text \<open>
  The client turns the duration, in nanoseconds, into the seconds it sends: a positive
  duration under one second becomes one second, any other is divided by a second and
  truncated towards zero.
\<close>

definition formatSec :: "duration \<Rightarrow> int" where
  "formatSec dur =
     (if 0 < dur \<and> dur < 1000000000 then 1
      else if dur < 0 then - ((- dur) div 1000000000)
      else dur div 1000000000)"

text \<open>
  Setting the expiry of a key that does not exist succeeds and changes nothing. On a
  key that exists, a number of seconds that is not positive deletes the key.
\<close>

definition Expire :: "redis \<Rightarrow> key \<Rightarrow> duration \<Rightarrow> redis \<times> error option" where
  "Expire s k d =
     (case outcome s of
        Some e \<Rightarrow> (issue (CmdExpire k d) s, Some e)
      | None \<Rightarrow>
          (issue (CmdExpire k d)
             (if kv s k = None then s
              else if formatSec d \<le> 0
                then s\<lparr>kv := (kv s)(k := None), ttls := (ttls s)(k := None)\<rparr>
                else s\<lparr>ttls := (ttls s)(k \<mapsto> formatSec d)\<rparr>), None))"

text \<open>
  The range-read of the whole list, \<^verbatim>\<open>LRange(ctx, key, 0, -1).Result()\<close>: the elements
  under the key and no error (no elements when the key does not exist), or no elements
  and the error of a failed call.
\<close>

definition LRange :: "redis \<Rightarrow> key \<Rightarrow> redis \<times> bytes list \<times> error option" where
  "LRange s k =
     (case outcome s of
        Some e \<Rightarrow> (issue (CmdLRange k 0 (- 1)) s, [], Some e)
      | None \<Rightarrow> (issue (CmdLRange k 0 (- 1)) s, elems s k, None))"

definition Del :: "redis \<Rightarrow> key \<Rightarrow> redis \<times> error option" where
  "Del s k =
     (case outcome s of
        Some e \<Rightarrow> (issue (CmdDel k) s, Some e)
      | None \<Rightarrow> (issue (CmdDel k) (s\<lparr>kv := (kv s)(k := None), ttls := (ttls s)(k := None)\<rparr>), None))"

subsection \<open>Configuration and start-up\<close>

text \<open>
  \<^verbatim>\<open>time.ParseDuration\<close> is a parameter \<open>pd\<close> of the model: it returns a duration and an
  error, as in Go.
\<close>

definition Validate :: "(string \<Rightarrow> duration \<times> error option) \<Rightarrow> config \<Rightarrow> error option" where
  "Validate pd cfg =
     (if Host cfg \<noteq> [] then Some (Errorf ''distributed cache host must be set'')
      else case snd (pd (TTL cfg)) of
             Some err \<Rightarrow> Some (Errorf ''distributed cache TTL must be a valid duration'')
           | None \<Rightarrow> None)"

definition Init ::
  "(string \<Rightarrow> duration \<times> error option) \<Rightarrow> cartCacheImpl \<Rightarrow> redis \<Rightarrow>
   cartCacheImpl \<times> redis \<times> error option" where
  "Init pd c s =
     (let cfg = Config c;
          (d, err) = pd (TTL cfg);
          c1 = c\<lparr>ttl := d\<rparr>
      in case err of
           Some e \<Rightarrow> (c1, s, Some e)
         | None \<Rightarrow>
             (let c2 = c1\<lparr>redisCli := Some (Host cfg)\<rparr>;
                  (s1, err1) = Ping s
              in (c2, s1, err1)))"

subsection \<open>Add, Get and Remove\<close>

text \<open>
  \<^verbatim>\<open>json.Marshal\<close> and \<^verbatim>\<open>json.Unmarshal\<close> at type \<^verbatim>\<open>CartItem\<close> are parameters \<open>M\<close> and
  \<open>U\<close> of the model: either may return an error.
\<close>

fun Add_loop ::
  "(CartItem \<Rightarrow> error + bytes) \<Rightarrow> redis \<Rightarrow> key \<Rightarrow> CartItem list \<Rightarrow> redis \<times> error option" where
  "Add_loop M s k [] = (s, None)"
| "Add_loop M s k (item # val) =
     (case M item of
        Inl err \<Rightarrow> (s, Some err)
      | Inr encItem \<Rightarrow>
          (case LPush s k encItem of
             (s1, Some err) \<Rightarrow> (s1, Some err)
           | (s1, None) \<Rightarrow> Add_loop M s1 k val))"

definition Add ::
  "(CartItem \<Rightarrow> error + bytes) \<Rightarrow> cartCacheImpl \<Rightarrow> redis \<Rightarrow> key \<Rightarrow> CartItem list \<Rightarrow>
   redis \<times> error option" where
  "Add M c s k val =
     (case Add_loop M s k val of
        (s1, Some err) \<Rightarrow> (s1, Some err)
      | (s1, None) \<Rightarrow>
          (case Expire s1 k (ttl c) of
             (s2, Some err) \<Rightarrow> (s2, Some err)
           | (s2, None) \<Rightarrow> (s2, None)))"

text \<open>
  The loop of \<^verbatim>\<open>Get\<close> writes the decoded items into the slice \<open>cart\<close>, made with the
  length of \<open>val\<close>, at the running index \<open>i\<close>.
\<close>

fun Get_loop ::
  "(bytes \<Rightarrow> error + CartItem) \<Rightarrow> CartItem list \<Rightarrow> nat \<Rightarrow> bytes list \<Rightarrow> error + CartItem list" where
  "Get_loop U cart i [] = Inr cart"
| "Get_loop U cart i (v # vs) =
     (case U v of
        Inl err \<Rightarrow> Inl err
      | Inr item \<Rightarrow> Get_loop U (cart[i := item]) (Suc i) vs)"

definition Get ::
  "(bytes \<Rightarrow> error + CartItem) \<Rightarrow> cartCacheImpl \<Rightarrow> redis \<Rightarrow> key \<Rightarrow>
   redis \<times> CartItem list \<times> error option" where
  "Get U c s k =
     (case LRange s k of
        (s1, val, err) \<Rightarrow>
          if err = Some redis_Nil then (s1, [], Some errNotFound)
          else (case Get_loop U (replicate (length val) zero_CartItem) 0 val of
                  Inl err1 \<Rightarrow> (s1, [], Some err1)
                | Inr cart \<Rightarrow> (s1, cart, None)))"

definition Remove :: "cartCacheImpl \<Rightarrow> redis \<Rightarrow> key \<Rightarrow> redis \<times> bool \<times> error option" where
  "Remove c s k =
     (case Del s k of
        (s1, Some err) \<Rightarrow> (s1, False, Some err)
      | (s1, None) \<Rightarrow> (s1, True, None))"

subsection \<open>Closed forms of the store after successful commands\<close>

text \<open>
  Two abbreviations used in the proofs only: the store after the successful pushes of
  \<open>bs\<close> under \<open>k\<close>, in that order, and after a successful set-expiry.
\<close>

definition pushed :: "redis \<Rightarrow> key \<Rightarrow> bytes list \<Rightarrow> redis" where
  "pushed s k bs =
     s\<lparr>kv := (if bs = [] then kv s else (kv s)(k \<mapsto> rev bs @ elems s k)),
       trace := trace s @ map (CmdLPush k) bs\<rparr>"

definition expired :: "redis \<Rightarrow> key \<Rightarrow> duration \<Rightarrow> redis" where
  "expired s k d =
     issue (CmdExpire k d)
       (if kv s k = None then s
        else if formatSec d \<le> 0
          then s\<lparr>kv := (kv s)(k := None), ttls := (ttls s)(k := None)\<rparr>
          else s\<lparr>ttls := (ttls s)(k \<mapsto> formatSec d)\<rparr>)"

subsection \<open>Sample inputs\<close>

text \<open>
  Concrete inputs on which the theorems are instantiated: a store that holds nothing and
  never fails, a component configured with a time to live of thirty seconds, three
  items, and finite tables that stand for \<^verbatim>\<open>json.Marshal\<close>, \<^verbatim>\<open>json.Unmarshal\<close> and
  \<^verbatim>\<open>time.ParseDuration\<close> on these inputs. The third item has no encoding in the table, so
  that encoding it fails.
\<close>

definition no_faults :: "nat \<Rightarrow> error option" where
  "no_faults n = None"

definition empty_redis :: redis where
  "empty_redis = \<lparr>kv = Map.empty, ttls = Map.empty, trace = [], faults = no_faults\<rparr>"

definition item_a :: CartItem where
  "item_a = \<lparr>ProductID = ''OLJCESPC7Z'', Quantity = 1\<rparr>"

definition item_b :: CartItem where
  "item_b = \<lparr>ProductID = ''66VCHSJNUP'', Quantity = 2\<rparr>"

definition item_c :: CartItem where
  "item_c = \<lparr>ProductID = ''1YMWWN1N4O'', Quantity = 5\<rparr>"

definition enc_a :: bytes where
  \<open>enc_a = ''{"ProductID":"OLJCESPC7Z","Quantity":1}''\<close>

definition enc_b :: bytes where
  \<open>enc_b = ''{"ProductID":"66VCHSJNUP","Quantity":2}''\<close>

definition sample_Marshal :: "CartItem \<Rightarrow> error + bytes" where
  "sample_Marshal i =
     (if i = item_a then Inr enc_a
      else if i = item_b then Inr enc_b
      else Inl (JSONError ''json: unsupported value''))"

definition sample_Unmarshal :: "bytes \<Rightarrow> error + CartItem" where
  "sample_Unmarshal b =
     (if b = enc_a then Inr item_a
      else if b = enc_b then Inr item_b
      else Inl (JSONError ''invalid character''))"

definition sample_ParseDuration :: "string \<Rightarrow> duration \<times> error option" where
  "sample_ParseDuration str =
     (if str = ''30s'' then (30000000000, None)
      else (0, Some (DurationError ''time: invalid duration'')))"

definition sample_cache :: cartCacheImpl where
  "sample_cache =
     \<lparr>Config = \<lparr>Host = ''localhost:6379'', TTL = ''30s''\<rparr>,
      redisCli = Some ''localhost:6379'', ttl = 30000000000\<rparr>"

section \<open>Properties\<close>

subsection \<open>The store commands\<close>

lemma issue_sel:
  "faults (issue c s) = faults s"
  "kv (issue c s) = kv s"
  "ttls (issue c s) = ttls s"
  "trace (issue c s) = trace s @ [c]"
  "elems (issue c s) k = elems s k"
  by (simp_all add: issue_def elems_def)

lemma pushed_Nil: "pushed s k [] = s"
  by (simp add: pushed_def)

lemma pushed_Cons: "pushed (pushed s k [b]) k bs = pushed s k (b # bs)"
  by (cases "bs = []") (simp_all add: pushed_def elems_def)

lemma pushed_sel:
  "faults (pushed s k bs) = faults s"
  "ttls (pushed s k bs) = ttls s"
  "trace (pushed s k bs) = trace s @ map (CmdLPush k) bs"
  "elems (pushed s k bs) k = rev bs @ elems s k"
  by (simp_all add: pushed_def elems_def)

lemma kv_pushed:
  "kv (pushed s k bs) k = (if bs = [] then kv s k else Some (rev bs @ elems s k))"
  by (simp add: pushed_def)

lemma outcome_pushed: "outcome (pushed s k bs) = faults s (length (trace s) + length bs)"
  by (simp add: outcome_def pushed_sel)

lemma kv_elems: "kv s k = Some xs \<Longrightarrow> elems s k = xs"
  by (simp add: elems_def)

lemma LPush_ok: "outcome s = None \<Longrightarrow> LPush s k v = (pushed s k [v], None)"
  by (simp add: LPush_def pushed_def issue_def)

lemma LPush_fail: "outcome s = Some e \<Longrightarrow> LPush s k v = (issue (CmdLPush k v) s, Some e)"
  by (simp add: LPush_def)

lemma Expire_ok: "outcome s = None \<Longrightarrow> Expire s k d = (expired s k d, None)"
  by (simp add: Expire_def expired_def)

lemma Expire_fail: "outcome s = Some e \<Longrightarrow> Expire s k d = (issue (CmdExpire k d) s, Some e)"
  by (simp add: Expire_def)

lemma formatSec_pos: "0 < d \<Longrightarrow> 0 < formatSec d"
  by (simp add: formatSec_def pos_imp_zdiv_pos_iff)

lemma expired_sel:
  "faults (expired s k d) = faults s"
  "trace (expired s k d) = trace s @ [CmdExpire k d]"
  by (simp_all add: expired_def issue_def)

lemma expired_kv: "0 < d \<Longrightarrow> kv (expired s k d) = kv s"
  using formatSec_pos [of d] by (simp add: expired_def issue_def)

lemma expired_elems: "0 < d \<Longrightarrow> elems (expired s k d) k' = elems s k'"
  by (simp add: elems_def expired_kv)

lemma ttls_expired:
  "kv s k \<noteq> None \<Longrightarrow> 0 < d \<Longrightarrow> ttls (expired s k d) k = Some (formatSec d)"
  using formatSec_pos [of d] by (auto simp: expired_def issue_def)

lemma formatSec_nonpositive: "d \<le> 0 \<Longrightarrow> formatSec d \<le> 0"
  by (auto simp: formatSec_def pos_imp_zdiv_nonneg_iff)

lemma expired_nonpositive: "d \<le> 0 \<Longrightarrow> kv (expired s k d) k = None"
  using formatSec_nonpositive [of d] by (auto simp: expired_def issue_def)

lemma ttls_update_sel:
  "kv (s\<lparr>ttls := t\<rparr>) = kv s"
  "elems (s\<lparr>ttls := t\<rparr>) k = elems s k"
  "trace (s\<lparr>ttls := t\<rparr>) = trace s"
  "faults (s\<lparr>ttls := t\<rparr>) = faults s"
  by (simp_all add: elems_def)

subsection \<open>The loops\<close>

text \<open>
  When every item encodes and none of the pushes fails, the loop of \<^verbatim>\<open>Add\<close> leaves the
  store with the encodings pushed in the order of the items.
\<close>

lemma Add_loop_ok:
  "map M items = map Inr bs \<Longrightarrow>
   (\<And>j. j < length items \<Longrightarrow> faults s (length (trace s) + j) = None) \<Longrightarrow>
   Add_loop M s k items = (pushed s k bs, None)"
proof (induction items arbitrary: s bs)
  case Nil
  then show ?case by (simp add: pushed_Nil)
next
  case (Cons item items)
  from Cons.prems(1) obtain b bs' where bs: "bs = b # bs'" and b: "M item = Inr b"
    and rest: "map M items = map Inr bs'"
    by (cases bs) auto
  have o: "outcome s = None"
    using Cons.prems(2) [of 0] by (simp add: outcome_def)
  have "Add_loop M (pushed s k [b]) k items = (pushed (pushed s k [b]) k bs', None)"
  proof (rule Cons.IH [OF rest])
    fix j assume "j < length items"
    then show "faults (pushed s k [b]) (length (trace (pushed s k [b])) + j) = None"
      using Cons.prems(2) [of "Suc j"] by (simp add: pushed_sel)
  qed
  then show ?case
    by (simp add: b bs LPush_ok [OF o] pushed_Cons)
qed

lemma Add_loop_append:
  "Add_loop M s k (xs @ ys) =
     (case Add_loop M s k xs of
        (s1, Some e) \<Rightarrow> (s1, Some e)
      | (s1, None) \<Rightarrow> Add_loop M s1 k ys)"
  by (induction xs arbitrary: s) (auto split: sum.splits prod.splits option.splits)

text \<open>
  When every element decodes, the loop of \<^verbatim>\<open>Get\<close> has filled the slice from index \<open>i\<close>
  on with the decoded items, in the order of the elements.
\<close>

lemma Get_loop_ok:
  "map U vs = map Inr items \<Longrightarrow> length cart = i + length vs \<Longrightarrow>
   Get_loop U cart i vs = Inr (take i cart @ items)"
proof (induction vs arbitrary: cart i items)
  case Nil
  then show ?case by simp
next
  case (Cons v vs)
  from Cons.prems(1) obtain x xs where items: "items = x # xs" and x: "U v = Inr x"
    and rest: "map U vs = map Inr xs"
    by (cases items) auto
  have len: "length (cart[i := x]) = Suc i + length vs"
    using Cons.prems(2) by simp
  have "i < length cart" using Cons.prems(2) by simp
  then have "take (Suc i) (cart[i := x]) = take i cart @ [x]"
    by (simp add: take_Suc_conv_app_nth)
  with Cons.IH [OF rest len] show ?case
    by (simp add: x items)
qed

subsection \<open>Add and Get on a store that answers\<close>

lemma Add_ok:
  assumes enc: "map M items = map Inr bs"
    and ok: "\<And>j. j \<le> length items \<Longrightarrow> faults s (length (trace s) + j) = None"
  shows "Add M c s k items = (expired (pushed s k bs) k (ttl c), None)"
proof -
  have loop: "Add_loop M s k items = (pushed s k bs, None)"
    using enc ok by (intro Add_loop_ok) simp_all
  have len: "length bs = length items"
    using enc by (metis length_map)
  have "outcome (pushed s k bs) = None"
    using ok [of "length items"] by (simp add: outcome_pushed len)
  then show ?thesis
    by (simp add: Add_def loop Expire_ok)
qed

lemma Get_answered:
  assumes "outcome s = None" and "map U (elems s k) = map Inr items"
  shows "Get U c s k = (issue (CmdLRange k 0 (- 1)) s, items, None)"
proof -
  have "Get_loop U (replicate (length (elems s k)) zero_CartItem) 0 (elems s k) =
        Inr (take 0 (replicate (length (elems s k)) zero_CartItem) @ items)"
    using assms(2) by (intro Get_loop_ok) simp_all
  then show ?thesis
    using assms(1) by (simp add: Get_def LRange_def)
qed

lemma Get_present:
  assumes "kv s k = Some xs" and "outcome s = None" and "map U xs = map Inr items"
  shows "Get U c s k = (issue (CmdLRange k 0 (- 1)) s, items, None)"
  using assms(2) by (rule Get_answered) (simp add: kv_elems [OF assms(1)] assms(3))

lemma Get_absent_aux:
  "kv s k = None \<Longrightarrow> outcome s = None \<Longrightarrow>
   Get U c s k = (issue (CmdLRange k 0 (- 1)) s, [], None)"
  by (rule Get_answered) (simp_all add: elems_def)

lemma Get_on_Nil:
  "LRange s k = (s1, val, Some redis_Nil) \<Longrightarrow> Get U c s k = (s1, [], Some errNotFound)"
  by (simp add: Get_def)

lemma Get_fault:
  "outcome s = Some e \<Longrightarrow> e \<noteq> redis_Nil \<Longrightarrow>
   Get U c s k = (issue (CmdLRange k 0 (- 1)) s, [], None)"
  by (simp add: Get_def LRange_def)

lemma Remove_ok:
  "outcome s = None \<Longrightarrow>
   Remove c s k =
     (issue (CmdDel k) (s\<lparr>kv := (kv s)(k := None), ttls := (ttls s)(k := None)\<rparr>), True, None)"
  by (simp add: Remove_def Del_def)

subsection \<open>What a successful Add has done\<close>

lemma LPush_None: "LPush s k v = (s1, None) \<Longrightarrow> s1 = pushed s k [v]"
  by (cases "outcome s") (simp_all add: LPush_ok LPush_fail)

lemma Expire_None: "Expire s k d = (s1, None) \<Longrightarrow> s1 = expired s k d"
  by (cases "outcome s") (simp_all add: Expire_ok Expire_fail)

lemma Add_loop_None:
  "Add_loop M s k items = (s1, None) \<Longrightarrow> \<exists>bs. map M items = map Inr bs \<and> s1 = pushed s k bs"
proof (induction items arbitrary: s)
  case Nil
  then show ?case by (simp add: pushed_Nil)
next
  case (Cons item items)
  from Cons.prems obtain b s' where b: "M item = Inr b" and push: "LPush s k b = (s', None)"
    and rest: "Add_loop M s' k items = (s1, None)"
    by (auto split: sum.splits prod.splits option.splits)
  from Cons.IH [OF rest] obtain bs where bs: "map M items = map Inr bs" and s1: "s1 = pushed s' k bs"
    by blast
  have "s1 = pushed s k (b # bs)"
    using s1 LPush_None [OF push] by (simp add: pushed_Cons)
  with b bs have "map M (item # items) = map Inr (b # bs) \<and> s1 = pushed s k (b # bs)"
    by simp
  then show ?case by blast
qed

lemma Add_None:
  assumes "Add M c s k items = (s1, None)"
  shows "\<exists>bs. map M items = map Inr bs \<and> s1 = expired (pushed s k bs) k (ttl c)"
proof -
  from assms obtain s' where loop: "Add_loop M s k items = (s', None)"
    and ex: "Expire s' k (ttl c) = (s1, None)"
    by (auto simp: Add_def split: prod.splits option.splits)
  from Add_loop_None [OF loop] obtain bs where "map M items = map Inr bs" "s' = pushed s k bs"
    by blast
  with Expire_None [OF ex] show ?thesis by blast
qed

lemma Add_positive_ttl:
  assumes add: "Add M c s k items = (s1, None)" and pos: "0 < ttl c"
  shows "\<exists>bs. map M items = map Inr bs \<and>
              kv s1 k = kv (pushed s k bs) k \<and>
              elems s1 k = rev bs @ elems s k \<and>
              trace s1 = trace s @ map (CmdLPush k) bs @ [CmdExpire k (ttl c)] \<and>
              faults s1 = faults s \<and>
              (kv s1 k = None \<or> ttls s1 k = Some (formatSec (ttl c)))"
proof -
  from Add_None [OF add] obtain bs where enc: "map M items = map Inr bs"
    and s1: "s1 = expired (pushed s k bs) k (ttl c)"
    by blast
  have "kv s1 k = kv (pushed s k bs) k"
    by (simp add: s1 expired_kv [OF pos])
  moreover have "elems s1 k = rev bs @ elems s k"
    by (simp add: s1 expired_elems [OF pos] pushed_sel)
  moreover have "trace s1 = trace s @ map (CmdLPush k) bs @ [CmdExpire k (ttl c)]"
    by (simp add: s1 expired_sel pushed_sel)
  moreover have "faults s1 = faults s"
    by (simp add: s1 expired_sel pushed_sel)
  moreover have "kv s1 k = None \<or> ttls s1 k = Some (formatSec (ttl c))"
  proof (cases "kv (pushed s k bs) k = None")
    case True
    then show ?thesis by (simp add: s1 expired_kv [OF pos])
  next
    case False
    then show ?thesis unfolding s1 using pos by (simp add: ttls_expired)
  qed
  ultimately show ?thesis using enc by blast
qed

lemma roundtrip_map:
  "map M items = map Inr bs \<Longrightarrow> (\<And>i b. i \<in> set items \<Longrightarrow> M i = Inr b \<Longrightarrow> U b = Inr i) \<Longrightarrow>
   map U bs = map Inr items"
proof (induction items arbitrary: bs)
  case Nil
  then show ?case by simp
next
  case (Cons i items)
  from Cons.prems(1) obtain b bs' where bs: "bs = b # bs'" and b: "M i = Inr b"
    and rest: "map M items = map Inr bs'"
    by (cases bs) auto
  have "U b = Inr i" using Cons.prems(2) [of i b] b by simp
  moreover have "map U bs' = map Inr items"
    using rest Cons.prems(2) by (intro Cons.IH) simp_all
  ultimately show ?case by (simp add: bs)
qed

subsection \<open>The sample inputs, evaluated\<close>

lemma outcome_no_faults: "faults s = no_faults \<Longrightarrow> outcome s = None"
  by (simp add: outcome_def no_faults_def)

lemma Add_no_faults:
  assumes "faults s = no_faults" and "map M items = map Inr bs"
  shows "Add M c s k items = (expired (pushed s k bs) k (ttl c), None)"
  using assms(2) by (rule Add_ok) (simp add: assms(1) no_faults_def)

lemma sample_codec:
  "sample_Marshal item_a = Inr enc_a" "sample_Marshal item_b = Inr enc_b"
  "sample_Marshal item_c = Inl (JSONError ''json: unsupported value'')"
  "sample_Unmarshal enc_a = Inr item_a" "sample_Unmarshal enc_b = Inr item_b"
  by (simp_all add: sample_Marshal_def sample_Unmarshal_def item_a_def item_b_def item_c_def
      enc_a_def enc_b_def)

lemma sample_roundtrip:
  "i \<in> {item_a, item_b} \<Longrightarrow> sample_Marshal i = Inr b \<Longrightarrow> sample_Unmarshal b = Inr i"
  by (auto simp: sample_codec)

lemma empty_redis_sel:
  "kv empty_redis k = None" "faults empty_redis = no_faults" "trace empty_redis = []"
  "ttls empty_redis = Map.empty" "elems empty_redis k = []"
  by (simp_all add: empty_redis_def elems_def)

lemma items_distinct: "item_a \<noteq> item_b"
  by (simp add: item_a_def item_b_def)

lemma sample_ttl: "ttl sample_cache = 30000000000"
  by (simp add: sample_cache_def)

subsection \<open>Errors of the range-read in Get\<close>

text \<open>
  C1 says that an error of the range-read other than the "key absent" signal comes back
  from \<^verbatim>\<open>Get\<close>. The code compares the error with \<^verbatim>\<open>redis.Nil\<close> only and then decodes
  whatever elements came with it: when the range-read fails with any other error, \<^verbatim>\<open>Get\<close>
  returns an empty cart and no error.
\<close>

theorem Get_drops_store_error:
  "outcome s = Some e \<Longrightarrow> e \<noteq> redis_Nil \<Longrightarrow> snd (Get U c s k) = ([], None)"
  by (simp add: Get_fault)

theorem Get_drops_store_error_witness:
  "snd (Get sample_Unmarshal sample_cache
      (empty_redis\<lparr>faults := (\<lambda>n. Some (TransportError ''connection refused''))\<rparr>) ''user1'')
   = ([], None)"
  using Get_drops_store_error
    [of "empty_redis\<lparr>faults := (\<lambda>n. Some (TransportError ''connection refused''))\<rparr>"
        "TransportError ''connection refused''" sample_Unmarshal sample_cache "''user1''"]
  by (simp add: outcome_def)

subsection \<open>Validation of the configuration\<close>

lemma Validate_accepts_iff:
  "Validate pd cfg = None \<longleftrightarrow> Host cfg = [] \<and> snd (pd (TTL cfg)) = None"
  by (simp add: Validate_def split: option.splits)

text \<open>
  C3 says that validation rejects a missing address and accepts an address that is set,
  given a duration that parses. The code does the opposite: with a valid duration, the
  address \<^verbatim>\<open>localhost:6379\<close> is rejected with the message "distributed cache host must be
  set" and the empty address is accepted.
\<close>

theorem Validate_polarity:
  "Validate sample_ParseDuration \<lparr>Host = ''localhost:6379'', TTL = ''30s''\<rparr>
     = Some (Errorf ''distributed cache host must be set'')
   \<and> Validate sample_ParseDuration \<lparr>Host = [], TTL = ''30s''\<rparr> = None"
  by (simp add: Validate_def sample_ParseDuration_def)

subsection \<open>Get on an absent key\<close>

text \<open>Whenever the range-read answers with \<^verbatim>\<open>redis.Nil\<close>, \<^verbatim>\<open>Get\<close> returns \<^verbatim>\<open>errNotFound\<close>.\<close>

lemma Get_Nil_fault:
  "outcome s = Some redis_Nil \<Longrightarrow> snd (Get U c s k) = ([], Some errNotFound)"
  by (simp add: Get_def LRange_def)

text \<open>
  C4 says that \<^verbatim>\<open>Get\<close> on a key absent from the store returns the error \<^verbatim>\<open>errNotFound\<close>
  and no items, and not a success with an empty cart. The range-read of a key that does
  not exist is answered with an empty list and no error, so the test for \<^verbatim>\<open>redis.Nil\<close>
  fails and \<^verbatim>\<open>Get\<close> returns an empty cart and no error: for an absent key, a success with
  an empty cart is what the code returns.
\<close>

theorem Get_absent_empty_success:
  "kv s k = None \<Longrightarrow> outcome s = None \<Longrightarrow> snd (Get U c s k) = ([], None)"
  by (simp add: Get_absent_aux)

theorem Get_absent_empty_success_witness:
  "snd (Get sample_Unmarshal sample_cache empty_redis ''user1'') = ([], None)"
  using Get_absent_empty_success [of empty_redis "''user1''" sample_Unmarshal sample_cache]
  by (simp add: empty_redis_def no_faults_def outcome_def)

text \<open>The same holds for a key that has been removed, whatever the store held before.\<close>

lemma Get_after_Remove:
  assumes "outcome s = None" and "faults s (Suc (length (trace s))) = None"
  shows "snd (Get U c (fst (Remove c s k)) k) = ([], None)"
proof -
  let ?s1 = "issue (CmdDel k) (s\<lparr>kv := (kv s)(k := None), ttls := (ttls s)(k := None)\<rparr>)"
  have "kv ?s1 k = None" by (simp add: issue_def)
  moreover have "outcome ?s1 = None" using assms(2) by (simp add: outcome_def issue_def)
  ultimately show ?thesis
    by (simp add: Remove_ok [OF assms(1)] Get_absent_aux)
qed

subsection \<open>Remove\<close>

text \<open>
  C8: \<^verbatim>\<open>Remove\<close> returns \<^verbatim>\<open>(true, nil)\<close> whenever the delete call returns no error, for a
  store in any state (whether or not it holds the key), and \<^verbatim>\<open>false\<close> with the very error
  of the delete call otherwise.
\<close>

theorem Remove_result:
  "Remove c s k =
     (case Del s k of
        (s1, None) \<Rightarrow> (s1, True, None)
      | (s1, Some err) \<Rightarrow> (s1, False, Some err))"
  by (simp add: Remove_def split: prod.splits option.splits)

subsection \<open>Start-up\<close>

text \<open>
  C9: when the configured time to live does not parse, \<^verbatim>\<open>Init\<close> returns the error of the
  parser, no command has been issued to the store (its state is the one before) and no
  client has been created (the handle is the one before).
\<close>

theorem Init_bad_TTL:
  "snd (pd (TTL (Config c))) = Some e \<Longrightarrow>
   snd (snd (Init pd c s)) = Some e \<and> fst (snd (Init pd c s)) = s \<and>
   redisCli (fst (Init pd c s)) = redisCli c"
  by (cases "pd (TTL (Config c))") (simp add: Init_def)

theorem Init_bad_TTL_witness:
  "snd (snd (Init sample_ParseDuration
         \<lparr>Config = \<lparr>Host = ''localhost:6379'', TTL = ''notaduration''\<rparr>, redisCli = None, ttl = 0\<rparr>
         empty_redis)) = Some (DurationError ''time: invalid duration'') \<and>
   fst (snd (Init sample_ParseDuration
         \<lparr>Config = \<lparr>Host = ''localhost:6379'', TTL = ''notaduration''\<rparr>, redisCli = None, ttl = 0\<rparr>
         empty_redis)) = empty_redis \<and>
   redisCli (fst (Init sample_ParseDuration
         \<lparr>Config = \<lparr>Host = ''localhost:6379'', TTL = ''notaduration''\<rparr>, redisCli = None, ttl = 0\<rparr>
         empty_redis)) = None"
  using Init_bad_TTL
    [of sample_ParseDuration
        "\<lparr>Config = \<lparr>Host = ''localhost:6379'', TTL = ''notaduration''\<rparr>, redisCli = None, ttl = 0\<rparr>"
        "DurationError ''time: invalid duration''" empty_redis]
  by (simp add: sample_ParseDuration_def)

text \<open>With a time to live that parses, the client is created and the store is pinged.\<close>

lemma Init_good_TTL:
  "snd (pd (TTL (Config c))) = None \<Longrightarrow>
   Init pd c s =
     (c\<lparr>ttl := fst (pd (TTL (Config c))), redisCli := Some (Host (Config c))\<rparr>,
      issue CmdPing s, outcome s)"
  by (cases "pd (TTL (Config c))") (simp add: Init_def Ping_def)

subsection \<open>Add with no items\<close>

text \<open>
  C10: \<^verbatim>\<open>Add\<close> with an empty sequence of items issues exactly one command, the set-expiry
  of the key to the configured time to live, and returns what that command returns.
\<close>

theorem Add_empty:
  "Add M c s k [] = Expire s k (ttl c) \<and>
   trace (fst (Add M c s k [])) = trace s @ [CmdExpire k (ttl c)]"
  by (cases "outcome s") (simp_all add: Add_def Expire_def issue_def)

subsection \<open>Partial failure of Add\<close>

text \<open>
  C5: let the items before \<open>x\<close> encode and be pushed without failure, and let the encoding
  of \<open>x\<close>, or else the push of its encoding, fail with \<open>e\<close>. Then \<^verbatim>\<open>Add\<close> returns \<open>e\<close>;
  the encodings of the items before \<open>x\<close> are in the store under the key (nothing is rolled
  back); the commands issued are the pushes for the items before \<open>x\<close> and, when \<open>x\<close>
  encoded, the failed push for \<open>x\<close>, and nothing else: no push for a later item and no
  set-expiry, so that the expiries are the ones before.
\<close>

theorem Add_partial_failure:
  assumes enc: "map M pre = map Inr bs"
    and ok: "\<And>j. j < length pre \<Longrightarrow> faults s (length (trace s) + j) = None"
    and fail: "M x = Inl e \<or>
               (\<exists>b. M x = Inr b \<and> faults s (length (trace s) + length pre) = Some e)"
  shows "snd (Add M c s k (pre @ x # post)) = Some e \<and>
         elems (fst (Add M c s k (pre @ x # post))) k = rev bs @ elems s k \<and>
         ttls (fst (Add M c s k (pre @ x # post))) = ttls s \<and>
         trace (fst (Add M c s k (pre @ x # post))) =
           trace s @ map (CmdLPush k) bs @ (case M x of Inl err \<Rightarrow> [] | Inr b \<Rightarrow> [CmdLPush k b])"
proof -
  let ?s1 = "pushed s k bs"
  have len: "length bs = length pre"
    using enc by (metis length_map)
  have pre: "Add_loop M s k pre = (?s1, None)"
    using enc ok by (rule Add_loop_ok)
  have split: "Add_loop M s k (pre @ x # post) = Add_loop M ?s1 k (x # post)"
    by (simp add: Add_loop_append pre)
  from fail show ?thesis
  proof
    assume mx: "M x = Inl e"
    then have "Add M c s k (pre @ x # post) = (?s1, Some e)"
      by (simp add: Add_def split)
    then show ?thesis
      by (simp add: pushed_sel mx)
  next
    assume "\<exists>b. M x = Inr b \<and> faults s (length (trace s) + length pre) = Some e"
    then obtain b where mx: "M x = Inr b"
      and f: "faults s (length (trace s) + length pre) = Some e"
      by blast
    have "outcome ?s1 = Some e"
      using f by (simp add: outcome_pushed len)
    then have "Add M c s k (pre @ x # post) = (issue (CmdLPush k b) ?s1, Some e)"
      by (simp add: Add_def split mx LPush_fail)
    then show ?thesis
      by (simp add: issue_sel pushed_sel mx)
  qed
qed

theorem Add_partial_failure_witness:
  "snd (Add sample_Marshal sample_cache empty_redis ''user1'' [item_a, item_b, item_c, item_a])
     = Some (JSONError ''json: unsupported value'') \<and>
   elems (fst (Add sample_Marshal sample_cache empty_redis ''user1''
                 [item_a, item_b, item_c, item_a])) ''user1'' = [enc_b, enc_a] \<and>
   ttls (fst (Add sample_Marshal sample_cache empty_redis ''user1''
                 [item_a, item_b, item_c, item_a])) = Map.empty \<and>
   trace (fst (Add sample_Marshal sample_cache empty_redis ''user1''
                 [item_a, item_b, item_c, item_a]))
     = [CmdLPush ''user1'' enc_a, CmdLPush ''user1'' enc_b]"
proof -
  have enc: "map sample_Marshal [item_a, item_b] = map Inr [enc_a, enc_b]"
    by (simp add: sample_Marshal_def item_a_def item_b_def)
  have ok: "\<And>j. j < length [item_a, item_b] \<Longrightarrow>
      faults empty_redis (length (trace empty_redis) + j) = None"
    by (simp add: empty_redis_def no_faults_def)
  have mc: "sample_Marshal item_c = Inl (JSONError ''json: unsupported value'')"
    by (simp add: sample_Marshal_def item_a_def item_b_def item_c_def)
  have fail: "sample_Marshal item_c = Inl (JSONError ''json: unsupported value'') \<or>
      (\<exists>b. sample_Marshal item_c = Inr b \<and>
           faults empty_redis (length (trace empty_redis) + length [item_a, item_b])
             = Some (JSONError ''json: unsupported value''))"
    using mc by simp
  have e: "elems empty_redis ''user1'' = []" "ttls empty_redis = Map.empty" "trace empty_redis = []"
    by (simp_all add: empty_redis_def elems_def)
  show ?thesis
    using Add_partial_failure [OF enc ok fail, of sample_cache "''user1''" "[item_a]"]
    by (simp add: e mc)
qed

subsection \<open>Add, then Get\<close>

text \<open>
  C2 says that \<^verbatim>\<open>Get\<close> after \<^verbatim>\<open>Add\<close> on an absent key returns the items in the order
  given, each item being appended at the tail of the list. \<^verbatim>\<open>Add\<close> pushes with \<^verbatim>\<open>LPush\<close>, at
  the head: for two distinct items the cart comes back in the opposite order. And with a
  configured time to live of zero the set-expiry that ends \<^verbatim>\<open>Add\<close> deletes the key, so
  that \<^verbatim>\<open>Get\<close> returns an empty cart.
\<close>

theorem Add_then_Get_counterexample:
  "kv empty_redis ''user1'' = None \<and>
   snd (Add sample_Marshal sample_cache empty_redis ''user1'' [item_a, item_b]) = None \<and>
   snd (Get sample_Unmarshal sample_cache
          (fst (Add sample_Marshal sample_cache empty_redis ''user1'' [item_a, item_b])) ''user1'')
     = ([item_b, item_a], None) \<and>
   snd (Get sample_Unmarshal sample_cache
          (fst (Add sample_Marshal sample_cache empty_redis ''user1'' [item_a, item_b])) ''user1'')
     \<noteq> ([item_a, item_b], None) \<and>
   snd (Add sample_Marshal (sample_cache\<lparr>ttl := 0\<rparr>) empty_redis ''user1'' [item_a]) = None \<and>
   snd (Get sample_Unmarshal (sample_cache\<lparr>ttl := 0\<rparr>)
          (fst (Add sample_Marshal (sample_cache\<lparr>ttl := 0\<rparr>) empty_redis ''user1'' [item_a]))
          ''user1'')
     = ([], None)"
proof -
  let ?s1 = "expired (pushed empty_redis ''user1'' [enc_a, enc_b]) ''user1'' (ttl sample_cache)"
  have pos: "0 < ttl sample_cache" by (simp add: sample_ttl)
  have add: "Add sample_Marshal sample_cache empty_redis ''user1'' [item_a, item_b] = (?s1, None)"
    by (rule Add_no_faults) (simp_all add: empty_redis_sel sample_codec)
  have "kv ?s1 ''user1'' = Some [enc_b, enc_a]"
    by (simp add: expired_kv [OF pos] kv_pushed empty_redis_sel)
  moreover have "outcome ?s1 = None"
    by (rule outcome_no_faults) (simp add: expired_sel pushed_sel empty_redis_sel)
  moreover have "map sample_Unmarshal [enc_b, enc_a] = map Inr [item_b, item_a]"
    by (simp add: sample_codec)
  ultimately have get: "Get sample_Unmarshal sample_cache ?s1 ''user1''
      = (issue (CmdLRange ''user1'' 0 (- 1)) ?s1, [item_b, item_a], None)"
    by (rule Get_present)
  let ?c0 = "sample_cache\<lparr>ttl := 0\<rparr>"
  let ?s0 = "expired (pushed empty_redis ''user1'' [enc_a]) ''user1'' (ttl ?c0)"
  have add0: "Add sample_Marshal ?c0 empty_redis ''user1'' [item_a] = (?s0, None)"
    by (rule Add_no_faults) (simp_all add: empty_redis_sel sample_codec)
  have "kv ?s0 ''user1'' = None"
    by (rule expired_nonpositive) simp
  moreover have "outcome ?s0 = None"
    by (rule outcome_no_faults) (simp add: expired_sel pushed_sel empty_redis_sel)
  ultimately have get0: "Get sample_Unmarshal ?c0 ?s0 ''user1''
      = (issue (CmdLRange ''user1'' 0 (- 1)) ?s0, [], None)"
    by (rule Get_absent_aux)
  show ?thesis
    unfolding add add0 fst_conv snd_conv get get0
    using items_distinct by (simp add: empty_redis_sel)
qed

text \<open>
  C2, as amended: for a key absent beforehand, a non-empty sequence of items and a
  configured time to live greater than zero, when \<^verbatim>\<open>Add\<close> has returned no error, the
  range-read of \<^verbatim>\<open>Get\<close> is answered and every item decodes from its encoding, \<^verbatim>\<open>Get\<close>
  returns the items in reverse order and no error. The encodings were pushed at the head
  of the list one by one, in the order of the items, and followed by one set-expiry: the
  list holds them last item first.
\<close>

theorem Add_then_Get:
  assumes absent: "kv s k = None"
    and nonempty: "items \<noteq> []"
    and pos: "0 < ttl c"
    and add: "Add M c s k items = (s1, None)"
    and answered: "outcome s1 = None"
    and rt: "\<And>i b. i \<in> set items \<Longrightarrow> M i = Inr b \<Longrightarrow> U b = Inr i"
  shows "snd (Get U c s1 k) = (rev items, None) \<and>
         (\<exists>bs. map M items = map Inr bs \<and> elems s1 k = rev bs \<and>
               trace s1 = trace s @ map (CmdLPush k) bs @ [CmdExpire k (ttl c)])"
proof -
  from Add_positive_ttl [OF add pos] obtain bs where enc: "map M items = map Inr bs"
    and el: "elems s1 k = rev bs @ elems s k"
    and tr: "trace s1 = trace s @ map (CmdLPush k) bs @ [CmdExpire k (ttl c)]"
    by blast
  have "elems s k = []"
    using absent by (simp add: elems_def)
  with el have stored: "elems s1 k = rev bs" by simp
  have "map U bs = map Inr items"
    using enc rt by (rule roundtrip_map)
  then have "rev (map U bs) = rev (map Inr items)"
    by (simp only:)
  then have "map U (elems s1 k) = map Inr (rev items)"
    by (simp only: rev_map stored)
  with answered have "Get U c s1 k = (issue (CmdLRange k 0 (- 1)) s1, rev items, None)"
    by (rule Get_answered)
  then have "snd (Get U c s1 k) = (rev items, None)" by simp
  with enc stored tr show ?thesis by blast
qed

theorem Add_then_Get_witness:
  "snd (Get sample_Unmarshal sample_cache
          (fst (Add sample_Marshal sample_cache empty_redis ''user2'' [item_b, item_a, item_a]))
          ''user2'')
     = ([item_a, item_a, item_b], None)"
proof -
  let ?s1 = "expired (pushed empty_redis ''user2'' [enc_b, enc_a, enc_a]) ''user2'' (ttl sample_cache)"
  have add: "Add sample_Marshal sample_cache empty_redis ''user2'' [item_b, item_a, item_a]
      = (?s1, None)"
    by (rule Add_no_faults) (simp_all add: empty_redis_sel sample_codec)
  have answered: "outcome ?s1 = None"
    by (rule outcome_no_faults) (simp add: expired_sel pushed_sel empty_redis_sel)
  have rt: "\<And>i b. i \<in> set [item_b, item_a, item_a] \<Longrightarrow> sample_Marshal i = Inr b \<Longrightarrow>
      sample_Unmarshal b = Inr i"
    by (rule sample_roundtrip) auto
  have "kv empty_redis ''user2'' = None" and "[item_b, item_a, item_a] \<noteq> []"
    and "0 < ttl sample_cache"
    by (simp_all add: empty_redis_sel sample_ttl)
  from Add_then_Get [where U = sample_Unmarshal and M = sample_Marshal, OF this add answered rt]
  have "snd (Get sample_Unmarshal sample_cache ?s1 ''user2'') = (rev [item_b, item_a, item_a], None)"
    by blast
  then show ?thesis
    by (simp add: add)
qed

subsection \<open>Two Adds, then Get\<close>

text \<open>
  C6 says that after \<^verbatim>\<open>Add\<close> of \<open>items1\<close> and \<^verbatim>\<open>Add\<close> of \<open>items2\<close> under one key, \<^verbatim>\<open>Get\<close>
  returns \<open>items1 @ items2\<close> and the expiry of the key is the full configured time to live.
  With one item in each call, the item of the second call comes first. And with a
  configured time to live of one second and a half, the expiry that the second call
  sets is one second.
\<close>

theorem Add_Add_Get_counterexample:
  "snd (Add sample_Marshal sample_cache empty_redis ''user1'' [item_a]) = None \<and>
   snd (Add sample_Marshal sample_cache
          (fst (Add sample_Marshal sample_cache empty_redis ''user1'' [item_a]))
          ''user1'' [item_b]) = None \<and>
   snd (Get sample_Unmarshal sample_cache
          (fst (Add sample_Marshal sample_cache
                 (fst (Add sample_Marshal sample_cache empty_redis ''user1'' [item_a]))
                 ''user1'' [item_b]))
          ''user1'')
     = ([item_b, item_a], None) \<and>
   [item_b, item_a] \<noteq> [item_a] @ [item_b] \<and>
   ttls (fst (Add sample_Marshal (sample_cache\<lparr>ttl := 1500000000\<rparr>)
                 (fst (Add sample_Marshal (sample_cache\<lparr>ttl := 1500000000\<rparr>)
                        empty_redis ''user1'' [item_a]))
                 ''user1'' [item_b])) ''user1''
     = Some 1 \<and>
   (1 :: int) * 1000000000 \<noteq> ttl (sample_cache\<lparr>ttl := 1500000000\<rparr>)"
proof -
  let ?s1 = "expired (pushed empty_redis ''user1'' [enc_a]) ''user1'' (ttl sample_cache)"
  let ?s2 = "expired (pushed ?s1 ''user1'' [enc_b]) ''user1'' (ttl sample_cache)"
  have pos: "0 < ttl sample_cache" by (simp add: sample_ttl)
  have add1: "Add sample_Marshal sample_cache empty_redis ''user1'' [item_a] = (?s1, None)"
    by (rule Add_no_faults) (simp_all add: empty_redis_sel sample_codec)
  have add2: "Add sample_Marshal sample_cache ?s1 ''user1'' [item_b] = (?s2, None)"
    by (rule Add_no_faults) (simp_all add: expired_sel pushed_sel empty_redis_sel sample_codec)
  have "kv ?s2 ''user1'' = Some [enc_b, enc_a]"
    by (simp add: expired_kv [OF pos] expired_elems [OF pos] kv_pushed pushed_sel empty_redis_sel)
  moreover have "outcome ?s2 = None"
    by (rule outcome_no_faults) (simp add: expired_sel pushed_sel empty_redis_sel)
  moreover have "map sample_Unmarshal [enc_b, enc_a] = map Inr [item_b, item_a]"
    by (simp add: sample_codec)
  ultimately have get: "Get sample_Unmarshal sample_cache ?s2 ''user1''
      = (issue (CmdLRange ''user1'' 0 (- 1)) ?s2, [item_b, item_a], None)"
    by (rule Get_present)
  let ?c = "sample_cache\<lparr>ttl := 1500000000\<rparr>"
  let ?t1 = "expired (pushed empty_redis ''user1'' [enc_a]) ''user1'' (ttl ?c)"
  let ?t2 = "expired (pushed ?t1 ''user1'' [enc_b]) ''user1'' (ttl ?c)"
  have addc1: "Add sample_Marshal ?c empty_redis ''user1'' [item_a] = (?t1, None)"
    by (rule Add_no_faults) (simp_all add: empty_redis_sel sample_codec)
  have addc2: "Add sample_Marshal ?c ?t1 ''user1'' [item_b] = (?t2, None)"
    by (rule Add_no_faults) (simp_all add: expired_sel pushed_sel empty_redis_sel sample_codec)
  have "ttls ?t2 ''user1'' = Some (formatSec (ttl ?c))"
    by (rule ttls_expired) (simp_all add: kv_pushed)
  moreover have "formatSec (ttl ?c) = 1"
    by (simp add: formatSec_def)
  ultimately have ttl2: "ttls ?t2 ''user1'' = Some 1" by simp
  show ?thesis
    unfolding add1 add2 addc1 addc2 fst_conv snd_conv get ttl2
    using items_distinct by simp
qed

text \<open>
  C6, as amended: for a key absent beforehand and a configured time to live greater than
  zero, when both calls of \<^verbatim>\<open>Add\<close> have returned no error, at least one item was added,
  the range-read of \<^verbatim>\<open>Get\<close> is answered and every item decodes from its encoding, \<^verbatim>\<open>Get\<close>
  returns the reverse of \<open>items1 @ items2\<close> (the items of the second call first, each
  call's items in reverse). The second call ends with a set-expiry of the key to the
  configured time to live, and whatever the time to live \<open>t\<close> of the key had become since
  the first call, it is afterwards the configured one in whole seconds (\<open>formatSec\<close>:
  rounded down, and one second for a positive duration below a second).
\<close>

theorem Add_Add_Get:
  assumes absent: "kv s k = None"
    and nonempty: "items1 @ items2 \<noteq> []"
    and pos: "0 < ttl c"
    and add1: "Add M c s k items1 = (s1, None)"
    and add2: "Add M c (s1\<lparr>ttls := t\<rparr>) k items2 = (s2, None)"
    and answered: "outcome s2 = None"
    and rt: "\<And>i b. i \<in> set (items1 @ items2) \<Longrightarrow> M i = Inr b \<Longrightarrow> U b = Inr i"
  shows "snd (Get U c s2 k) = (rev (items1 @ items2), None) \<and>
         ttls s2 k = Some (formatSec (ttl c)) \<and>
         (\<exists>bs. map M items2 = map Inr bs \<and>
               trace s2 = trace s1 @ map (CmdLPush k) bs @ [CmdExpire k (ttl c)])"
proof -
  from Add_positive_ttl [OF add1 pos] obtain bs1 where enc1: "map M items1 = map Inr bs1"
    and kv1: "kv s1 k = kv (pushed s k bs1) k"
    and el1: "elems s1 k = rev bs1 @ elems s k"
    by blast
  from Add_positive_ttl [OF add2 pos] obtain bs2 where enc2: "map M items2 = map Inr bs2"
    and kv2: "kv s2 k = kv (pushed (s1\<lparr>ttls := t\<rparr>) k bs2) k"
    and el2: "elems s2 k = rev bs2 @ elems (s1\<lparr>ttls := t\<rparr>) k"
    and tr2: "trace s2 = trace (s1\<lparr>ttls := t\<rparr>) @ map (CmdLPush k) bs2 @ [CmdExpire k (ttl c)]"
    and tt2: "kv s2 k = None \<or> ttls s2 k = Some (formatSec (ttl c))"
    by blast
  have len: "length bs1 = length items1" "length bs2 = length items2"
    using enc1 enc2 by (metis length_map)+
  with nonempty have bs: "bs1 \<noteq> [] \<or> bs2 \<noteq> []" by auto
  have e0: "elems s k = []"
    using absent by (simp add: elems_def)
  have stored: "elems s2 k = rev (bs1 @ bs2)"
    by (simp add: el2 ttls_update_sel el1 e0)
  have "map M (items1 @ items2) = map Inr (bs1 @ bs2)"
    using enc1 enc2 by simp
  then have "map U (bs1 @ bs2) = map Inr (items1 @ items2)"
    using rt by (rule roundtrip_map)
  then have "rev (map U (bs1 @ bs2)) = rev (map Inr (items1 @ items2))"
    by (simp only:)
  then have "map U (elems s2 k) = map Inr (rev (items1 @ items2))"
    by (simp only: rev_map stored)
  with answered have "Get U c s2 k = (issue (CmdLRange k 0 (- 1)) s2, rev (items1 @ items2), None)"
    by (rule Get_answered)
  then have get: "snd (Get U c s2 k) = (rev (items1 @ items2), None)" by simp
  have "kv s2 k \<noteq> None"
    using bs by (auto simp: kv2 kv_pushed ttls_update_sel kv1)
  with tt2 have expiry: "ttls s2 k = Some (formatSec (ttl c))" by simp
  have "trace s2 = trace s1 @ map (CmdLPush k) bs2 @ [CmdExpire k (ttl c)]"
    using tr2 by (simp add: ttls_update_sel)
  with get expiry enc2 show ?thesis by blast
qed

theorem Add_Add_Get_witness:
  "snd (Get sample_Unmarshal sample_cache
          (fst (Add sample_Marshal sample_cache
                 ((fst (Add sample_Marshal sample_cache empty_redis ''user3'' [item_a, item_b]))
                    \<lparr>ttls := [''user3'' \<mapsto> 7]\<rparr>)
                 ''user3'' [item_b]))
          ''user3'')
     = ([item_b, item_b, item_a], None) \<and>
   ttls (fst (Add sample_Marshal sample_cache
                 ((fst (Add sample_Marshal sample_cache empty_redis ''user3'' [item_a, item_b]))
                    \<lparr>ttls := [''user3'' \<mapsto> 7]\<rparr>)
                 ''user3'' [item_b])) ''user3''
     = Some 30"
proof -
  let ?s1 = "expired (pushed empty_redis ''user3'' [enc_a, enc_b]) ''user3'' (ttl sample_cache)"
  let ?s1' = "?s1\<lparr>ttls := [''user3'' \<mapsto> 7]\<rparr>"
  let ?s2 = "expired (pushed ?s1' ''user3'' [enc_b]) ''user3'' (ttl sample_cache)"
  have add1: "Add sample_Marshal sample_cache empty_redis ''user3'' [item_a, item_b] = (?s1, None)"
    by (rule Add_no_faults) (simp_all add: empty_redis_sel sample_codec)
  have add2: "Add sample_Marshal sample_cache ?s1' ''user3'' [item_b] = (?s2, None)"
    by (rule Add_no_faults) (simp_all add: expired_sel pushed_sel empty_redis_sel sample_codec)
  have answered: "outcome ?s2 = None"
    by (rule outcome_no_faults) (simp add: expired_sel pushed_sel empty_redis_sel)
  have rt: "\<And>i b. i \<in> set ([item_a, item_b] @ [item_b]) \<Longrightarrow> sample_Marshal i = Inr b \<Longrightarrow>
      sample_Unmarshal b = Inr i"
    by (rule sample_roundtrip) auto
  have "kv empty_redis ''user3'' = None" and "[item_a, item_b] @ [item_b] \<noteq> []"
    and "0 < ttl sample_cache"
    by (simp_all add: empty_redis_sel sample_ttl)
  from Add_Add_Get [where U = sample_Unmarshal and M = sample_Marshal,
      OF this add1 add2 answered rt]
  have "snd (Get sample_Unmarshal sample_cache ?s2 ''user3'') = (rev ([item_a, item_b] @ [item_b]), None)
      \<and> ttls ?s2 ''user3'' = Some (formatSec (ttl sample_cache))"
    by blast
  moreover have "formatSec (ttl sample_cache) = 30"
    by (simp add: sample_ttl formatSec_def)
  ultimately show ?thesis
    unfolding add1 add2 fst_conv by simp
qed

end
